theory Spec2Isabelle
  imports Main "HOL-Library.Word" "HOL-Library.Sublist"
begin

section \<open>The response envelope of the generation client\<close>

text \<open>
  The types of package \<open>genai\<close> that \<open>parseResponse\<close> reads, restricted to the fields
  it touches. Every Go pointer is an \<open>option\<close> (\<open>None\<close> is \<open>nil\<close>), every slice of
  pointers a list of options; \<open>int32\<close> is a 32-bit word.
\<close>

datatype panic = NilPointerDereference

record genai_Part =
  part_Text :: string

record genai_Content =
  content_Parts :: "genai_Part option list"

record genai_Citation =
  gcit_StartIndex :: "32 word"
  gcit_EndIndex :: "32 word"
  gcit_Title :: string
  gcit_URI :: string

record genai_CitationMetadata =
  cm_Citations :: "genai_Citation option list"

record genai_GroundingChunkWeb =
  gweb_URI :: string
  gweb_Title :: string

record genai_GroundingChunkRetrievedContext =
  grc_Title :: string
  grc_URI :: string

record genai_GroundingChunk =
  gchunk_Web :: "genai_GroundingChunkWeb option"
  gchunk_RetrievedContext :: "genai_GroundingChunkRetrievedContext option"

record genai_GroundingMetadata =
  gm_GroundingChunks :: "genai_GroundingChunk option list"
  gm_WebSearchQueries :: "string list"

record genai_Candidate =
  cand_Content :: "genai_Content option"
  cand_CitationMetadata :: "genai_CitationMetadata option"
  cand_GroundingMetadata :: "genai_GroundingMetadata option"

record genai_GenerateContentResponse =
  resp_Candidates :: "genai_Candidate option list"

section \<open>The normalized response (service.go)\<close>

text \<open>
  \<open>Source\<close>, \<open>Citation\<close>, \<open>WebGroundingChunk\<close>, \<open>FileGroundingChunk\<close>, \<open>GroundingChunk\<close>,
  \<open>GroundingSupport\<close> and \<open>PromptResponse\<close> of service.go. Go's \<open>int\<close> is a 64-bit
  word. Pointers that \<open>parseResponse\<close> always sets to a fresh object are plain values;
  the two pointer fields of \<open>GroundingChunk\<close> and the \<open>GroundingSupport\<close> field, which
  may stay \<open>nil\<close>, are options.
\<close>

record Source =
  src_Title :: string
  src_URI :: string

record Citation =
  cit_StartIndex :: "64 word"
  cit_EndIndex :: "64 word"
  cit_Sources :: "Source list"

record WebGroundingChunk =
  web_URI :: string
  web_Title :: string

record FileGroundingChunk =
  file_FileName :: string
  file_URI :: string

record GroundingChunk =
  chunk_Web :: "WebGroundingChunk option"
  chunk_File :: "FileGroundingChunk option"

record GroundingSupport =
  gs_GroundingChunks :: "GroundingChunk list"
  gs_WebSearchQueries :: "string list"

record PromptResponse =
  pr_Parts :: "string list"
  pr_Citations :: "Citation list"
  pr_GroundingSupport :: "GroundingSupport option"

text \<open>The loop over \<open>cand.Content.Parts\<close> (service.go, lines 296-300).\<close>

fun parts_loop :: "genai_Part option list \<Rightarrow> PromptResponse \<Rightarrow> panic + PromptResponse" where
  "parts_loop [] r = Inr r"
| "parts_loop (None # ps) r = Inl NilPointerDereference"
| "parts_loop (Some p # ps) r =
     parts_loop ps
       (if part_Text p \<noteq> [] then r\<lparr>pr_Parts := pr_Parts r @ [part_Text p]\<rparr> else r)"

text \<open>One raw citation becomes one \<open>Citation\<close> (lines 305-317).\<close>

definition citation_of :: "genai_Citation \<Rightarrow> Citation" where
  "citation_of c =
     (let c0 = \<lparr>cit_StartIndex = scast (gcit_StartIndex c),
                cit_EndIndex = scast (gcit_EndIndex c),
                cit_Sources = []\<rparr>
      in if gcit_URI c \<noteq> []
         then c0\<lparr>cit_Sources := cit_Sources c0 @ [\<lparr>src_Title = gcit_Title c, src_URI = gcit_URI c\<rparr>]\<rparr>
         else c0)"

text \<open>The loop over \<open>cand.CitationMetadata.Citations\<close> (lines 304-320).\<close>

fun citations_loop :: "genai_Citation option list \<Rightarrow> PromptResponse \<Rightarrow> panic + PromptResponse" where
  "citations_loop [] r = Inr r"
| "citations_loop (None # cs) r = Inl NilPointerDereference"
| "citations_loop (Some c # cs) r =
     citations_loop cs (r\<lparr>pr_Citations := pr_Citations r @ [citation_of c]\<rparr>)"

text \<open>One raw grounding chunk becomes one \<open>GroundingChunk\<close> (lines 331-345).\<close>

definition chunk_of :: "genai_GroundingChunk \<Rightarrow> GroundingChunk" where
  "chunk_of chunk =
     (let gc0 = \<lparr>chunk_Web = None, chunk_File = None\<rparr>;
          gc1 = (case gchunk_Web chunk of
                   None \<Rightarrow> gc0
                 | Some w \<Rightarrow> gc0\<lparr>chunk_Web := Some \<lparr>web_URI = gweb_URI w, web_Title = gweb_Title w\<rparr>\<rparr>)
      in case gchunk_RetrievedContext chunk of
           None \<Rightarrow> gc1
         | Some rc \<Rightarrow>
             if grc_URI rc \<noteq> []
             then gc1\<lparr>chunk_File := Some \<lparr>file_FileName = grc_Title rc, file_URI = grc_URI rc\<rparr>\<rparr>
             else gc1)"

text \<open>The loop over \<open>cand.GroundingMetadata.GroundingChunks\<close> (lines 330-348).\<close>

fun chunks_loop :: "genai_GroundingChunk option list \<Rightarrow> GroundingSupport \<Rightarrow> panic + GroundingSupport" where
  "chunks_loop [] gs = Inr gs"
| "chunks_loop (None # cs) gs = Inl NilPointerDereference"
| "chunks_loop (Some c # cs) gs =
     chunks_loop cs (gs\<lparr>gs_GroundingChunks := gs_GroundingChunks gs @ [chunk_of c]\<rparr>)"

text \<open>
  The body of the loop over \<open>resp.Candidates\<close> (lines 294-350). \<open>cand.Content.Parts\<close>
  dereferences \<open>cand\<close> and \<open>cand.Content\<close> without a check; the two metadata
  pointers are checked before use.
\<close>

definition candidate_step :: "genai_Candidate option \<Rightarrow> PromptResponse \<Rightarrow> panic + PromptResponse" where
  "candidate_step cand r =
     (case cand of
        None \<Rightarrow> Inl NilPointerDereference
      | Some cd \<Rightarrow>
         (case cand_Content cd of
            None \<Rightarrow> Inl NilPointerDereference
          | Some content \<Rightarrow>
             (case parts_loop (content_Parts content) r of
                Inl e \<Rightarrow> Inl e
              | Inr r1 \<Rightarrow>
                 (case (case cand_CitationMetadata cd of
                          None \<Rightarrow> Inr r1
                        | Some cm \<Rightarrow>
                            if length (cm_Citations cm) > 0
                            then citations_loop (cm_Citations cm) r1
                            else Inr r1) of
                    Inl e \<Rightarrow> Inl e
                  | Inr r2 \<Rightarrow>
                     (case cand_GroundingMetadata cd of
                        None \<Rightarrow> Inr r2
                      | Some gm \<Rightarrow>
                         (case chunks_loop (gm_GroundingChunks gm)
                                 \<lparr>gs_GroundingChunks = [],
                                  gs_WebSearchQueries = gm_WebSearchQueries gm\<rparr> of
                            Inl e \<Rightarrow> Inl e
                          | Inr gs \<Rightarrow> Inr (r2\<lparr>pr_GroundingSupport := Some gs\<rparr>)))))))"

fun candidates_loop :: "genai_Candidate option list \<Rightarrow> PromptResponse \<Rightarrow> panic + PromptResponse" where
  "candidates_loop [] r = Inr r"
| "candidates_loop (c # cs) r =
     (case candidate_step c r of
        Inl e \<Rightarrow> Inl e
      | Inr r' \<Rightarrow> candidates_loop cs r')"

text \<open>\<open>parseResponse\<close> (lines 287-353); \<open>resp\<close> itself is a pointer.\<close>

definition parseResponse :: "genai_GenerateContentResponse option \<Rightarrow> panic + PromptResponse" where
  "parseResponse resp =
     (case resp of
        None \<Rightarrow> Inl NilPointerDereference
      | Some rs \<Rightarrow>
          candidates_loop (resp_Candidates rs)
            \<lparr>pr_Parts = [], pr_Citations = [], pr_GroundingSupport = None\<rparr>)"

section \<open>Building the query response (handler.go)\<close>

record SourceDocument =
  sd_FileName :: string
  sd_URI :: string

record QueryResponse =
  qr_Answer :: string
  qr_Sources :: "SourceDocument list"
  qr_Citations :: "Citation list"
  qr_GroundingSupport :: "GroundingSupport option"
  qr_Error :: string

text \<open>\<open>response.Answer += part\<close> for every part (handler.go, lines 112-114).\<close>

fun answer_loop :: "string list \<Rightarrow> string \<Rightarrow> string" where
  "answer_loop [] answer = answer"
| "answer_loop (part # parts) answer = answer_loop parts (answer @ part)"

text \<open>
  The loop that extracts the unique sources (lines 119-127). \<open>seenSources\<close> is a
  \<open>map[string]bool\<close>: a function to \<open>bool\<close> that is \<open>False\<close> on absent keys.
\<close>

fun sources_loop ::
  "GroundingChunk list \<Rightarrow> (string \<Rightarrow> bool) \<Rightarrow> SourceDocument list \<Rightarrow> SourceDocument list" where
  "sources_loop [] seenSources sources = sources"
| "sources_loop (chunk # chunks) seenSources sources =
     (case chunk_File chunk of
        None \<Rightarrow> sources_loop chunks seenSources sources
      | Some f \<Rightarrow>
          if \<not> seenSources (file_FileName f)
          then sources_loop chunks (seenSources(file_FileName f := True))
                 (sources @ [\<lparr>sd_FileName = file_FileName f, sd_URI = file_URI f\<rparr>])
          else sources_loop chunks seenSources sources)"

text \<open>The response that \<open>Query\<close> builds from a \<open>PromptResponse\<close> (lines 105-128).\<close>

definition build_response :: "PromptResponse \<Rightarrow> QueryResponse" where
  "build_response resp =
     (let response = \<lparr>qr_Answer = [], qr_Sources = [],
                       qr_Citations = pr_Citations resp,
                       qr_GroundingSupport = pr_GroundingSupport resp,
                       qr_Error = []\<rparr>;
          response1 = response\<lparr>qr_Answer := answer_loop (pr_Parts resp) (qr_Answer response)\<rparr>
      in case pr_GroundingSupport resp of
           None \<Rightarrow> response1
         | Some gs \<Rightarrow>
             response1\<lparr>qr_Sources :=
               sources_loop (gs_GroundingChunks gs) (\<lambda>_. False) (qr_Sources response1)\<rparr>)"

section \<open>What the loops are compared with\<close>

text \<open>The non-nil entries of a slice of pointers, in order.\<close>

fun somes :: "'a option list \<Rightarrow> 'a list" where
  "somes [] = []"
| "somes (None # xs) = somes xs"
| "somes (Some x # xs) = x # somes xs"

text \<open>
  A response that \<open>parseResponse\<close> can walk without dereferencing \<open>nil\<close>: no
  candidate, content, part, citation or grounding chunk pointer that the code follows
  unchecked is \<open>nil\<close>.
\<close>

definition no_nil :: "'a option list \<Rightarrow> bool" where
  "no_nil xs = list_all (\<lambda>x. x \<noteq> None) xs"

definition candidate_ok :: "genai_Candidate option \<Rightarrow> bool" where
  "candidate_ok cand =
     (case cand of
        None \<Rightarrow> False
      | Some cd \<Rightarrow>
          (case cand_Content cd of None \<Rightarrow> False | Some ct \<Rightarrow> no_nil (content_Parts ct)) \<and>
          (case cand_CitationMetadata cd of None \<Rightarrow> True | Some cm \<Rightarrow> no_nil (cm_Citations cm)) \<and>
          (case cand_GroundingMetadata cd of None \<Rightarrow> True | Some gm \<Rightarrow> no_nil (gm_GroundingChunks gm)))"

definition response_ok :: "genai_GenerateContentResponse option \<Rightarrow> bool" where
  "response_ok resp =
     (case resp of None \<Rightarrow> False | Some rs \<Rightarrow> list_all candidate_ok (resp_Candidates rs))"

text \<open>The text parts, raw citations and grounding metadata of one candidate.\<close>

definition candidate_texts :: "genai_Candidate option \<Rightarrow> string list" where
  "candidate_texts cand =
     (case cand of
        None \<Rightarrow> []
      | Some cd \<Rightarrow>
          (case cand_Content cd of
             None \<Rightarrow> []
           | Some ct \<Rightarrow> map part_Text (somes (content_Parts ct))))"

definition candidate_citations :: "genai_Candidate option \<Rightarrow> genai_Citation list" where
  "candidate_citations cand =
     (case cand of
        None \<Rightarrow> []
      | Some cd \<Rightarrow>
          (case cand_CitationMetadata cd of
             None \<Rightarrow> []
           | Some cm \<Rightarrow> somes (cm_Citations cm)))"

definition candidate_grounding :: "genai_Candidate option \<Rightarrow> genai_GroundingMetadata option" where
  "candidate_grounding cand =
     (case cand of None \<Rightarrow> None | Some cd \<Rightarrow> cand_GroundingMetadata cd)"

definition response_candidates :: "genai_GenerateContentResponse option \<Rightarrow> genai_Candidate option list" where
  "response_candidates resp = (case resp of None \<Rightarrow> [] | Some rs \<Rightarrow> resp_Candidates rs)"

text \<open>
  The spec's dedup rule, written after its words: scan in order, keep the first
  occurrence of each distinct file name, skip subsequent repeats.
\<close>

fun keep_first_by_name :: "SourceDocument list \<Rightarrow> SourceDocument list" where
  "keep_first_by_name [] = []"
| "keep_first_by_name (x # xs) =
     x # keep_first_by_name (filter (\<lambda>y. sd_FileName y \<noteq> sd_FileName x) xs)"

text \<open>The file-variant chunks of a chunk sequence, as source documents, in order.\<close>

definition file_sources :: "GroundingChunk list \<Rightarrow> SourceDocument list" where
  "file_sources chunks =
     map (\<lambda>f. \<lparr>sd_FileName = file_FileName f, sd_URI = file_URI f\<rparr>)
       (somes (map chunk_File chunks))"

text \<open>The grounding support that one candidate's grounding metadata turns into.\<close>

definition grounding_of :: "genai_GroundingMetadata \<Rightarrow> GroundingSupport" where
  "grounding_of gm =
     \<lparr>gs_GroundingChunks = map chunk_of (somes (gm_GroundingChunks gm)),
      gs_WebSearchQueries = gm_WebSearchQueries gm\<rparr>"

text \<open>
  The grounding support after a run over the candidates: that of the last candidate
  carrying grounding metadata, or the initial one when none does.
\<close>

definition last_grounding ::
  "genai_Candidate option list \<Rightarrow> GroundingSupport option \<Rightarrow> GroundingSupport option" where
  "last_grounding cands gs0 =
     (case somes (map candidate_grounding cands) of
        [] \<Rightarrow> gs0
      | gms \<Rightarrow> Some (grounding_of (last gms)))"

section \<open>Composing the prompt (service.go, handler.go)\<close>

record HistoryMessage =
  hm_Role :: string
  hm_Content :: string

record QueryRequest =
  req_Query :: string
  req_StoreName :: string
  req_History :: "HistoryMessage list"

text \<open>
  \<open>PromptWithHistory\<close> takes its history as \<open>interface{}\<close>. A value of that type is
  \<open>nil\<close>, or a value with a dynamic type: \<open>[]HistoryMessage\<close> (what \<open>Query\<close> passes),
  \<open>[]interface{}\<close> (what the type assertion of line 260 accepts), or another type.
  An element of a \<open>[]interface{}\<close> is a \<open>map[string]interface{}\<close> or something else;
  a map entry is the \<open>nil\<close> interface (also the result of looking up an absent key),
  a string, or a value of another type, given by what the verb \<open>%s\<close> prints for it.
\<close>

datatype any_value = AnyNil | AnyString string | AnyOther string

datatype history_elem = ElemMap "string \<Rightarrow> any_value option" | ElemOther

datatype history_arg =
    HistNil
  | HistMessages "HistoryMessage list"
  | HistUntyped "history_elem list"
  | HistOther

text \<open>Indexing a \<open>map[string]interface{}\<close>: an absent key gives \<open>nil\<close>.\<close>

definition map_index :: "(string \<Rightarrow> any_value option) \<Rightarrow> string \<Rightarrow> any_value" where
  "map_index m k = (case m k of None \<Rightarrow> AnyNil | Some v \<Rightarrow> v)"

text \<open>What \<open>fmt\<close> prints for an operand under the verb \<open>%s\<close>.\<close>

fun sprintf_s :: "any_value \<Rightarrow> string" where
  "sprintf_s AnyNil = ''%!s(<nil>)''"
| "sprintf_s (AnyString s) = s"
| "sprintf_s (AnyOther rendering) = rendering"

definition newline :: char where
  "newline = CHR 0x0A"

text \<open>The loop over \<open>historySlice\<close> (service.go, lines 262-268).\<close>

fun history_loop :: "history_elem list \<Rightarrow> string \<Rightarrow> string" where
  "history_loop [] contextStr = contextStr"
| "history_loop (ElemMap msgMap # msgs) contextStr =
     history_loop msgs
       (contextStr @ sprintf_s (map_index msgMap ''role'') @ '': '' @
        sprintf_s (map_index msgMap ''content'') @ [newline])"
| "history_loop (ElemOther # msgs) contextStr = history_loop msgs contextStr"

text \<open>\<open>fullPrompt\<close>, the text that \<open>PromptWithHistory\<close> sends (lines 257-271).\<close>

definition fullPrompt :: "string \<Rightarrow> history_arg \<Rightarrow> string" where
  "fullPrompt prompt history =
     (case history of
        HistUntyped historySlice \<Rightarrow>
          if length historySlice > 0
          then history_loop historySlice (''Previous conversation:'' @ [newline]) @
               [newline] @ ''Current question: '' @ prompt
          else prompt
      | _ \<Rightarrow> prompt)"

text \<open>
  The stores that \<open>ListStores\<close> returns, and \<open>GetStoreByName\<close> (lines 109-122) over
  them: the first store with the display name.
\<close>

record Store =
  store_Name :: string
  store_DisplayName :: string
  store_CreateTime :: string
  store_UpdateTime :: string

datatype error = Error string | StoreNotFound string

datatype http_failure = BadRequest string | NotFound error

fun find_store :: "Store list \<Rightarrow> string \<Rightarrow> Store option" where
  "find_store [] displayName = None"
| "find_store (store # stores) displayName =
     (if store_DisplayName store = displayName then Some store
      else find_store stores displayName)"

definition GetStoreByName :: "error + Store list \<Rightarrow> string \<Rightarrow> error + Store" where
  "GetStoreByName listed displayName =
     (case listed of
        Inl err \<Rightarrow> Inl err
      | Inr stores \<Rightarrow>
          (case find_store stores displayName of
             Some store \<Rightarrow> Inr store
           | None \<Rightarrow> Inl (StoreNotFound displayName)))"

text \<open>
  \<open>Query\<close> up to its call of \<open>PromptWithHistory\<close> (handler.go, lines 68-96), on a
  decoded POST request: either the status and message of the error response, or the
  prompt sent to the model together with the store name that scopes the call.
  \<open>req.History\<close> reaches \<open>PromptWithHistory\<close> with dynamic type \<open>[]HistoryMessage\<close>.
\<close>

definition Query_outbound ::
  "error + Store list \<Rightarrow> QueryRequest \<Rightarrow> http_failure + (string \<times> string)" where
  "Query_outbound listed req =
     (if req_Query req = [] then Inl (BadRequest ''Query is required'')
      else if req_StoreName req = [] then Inl (BadRequest ''StoreName is required'')
      else case GetStoreByName listed (req_StoreName req) of
             Inl err \<Rightarrow> Inl (NotFound err)
           | Inr store \<Rightarrow>
               Inr (fullPrompt (req_Query req) (HistMessages (req_History req)),
                    store_Name store))"

text \<open>A history of typed turns as the untyped value the type assertions accept.\<close>

definition untyped_turn :: "HistoryMessage \<Rightarrow> history_elem" where
  "untyped_turn t =
     ElemMap ((\<lambda>_. None)(''role'' := Some (AnyString (hm_Role t)),
                          ''content'' := Some (AnyString (hm_Content t))))"

definition turn_line :: "HistoryMessage \<Rightarrow> string" where
  "turn_line t = hm_Role t @ '': '' @ hm_Content t @ [newline]"

section \<open>Candidate URLs (caoscrape/scraper.go)\<close>

definition baseURL :: string where
  "baseURL = ''https://public-search.werk.belgie.be''"

definition apiPrefix :: string where
  "apiPrefix = ''/website-service/joint-work-convention''"

definition documentBase :: string where
  "documentBase = baseURL @ apiPrefix"

text \<open>
  The URLs that \<open>Search\<close> returns for the document links of the search results
  (lines 148-160): empty links are left out, a link without a leading slash gets one,
  and every link is prefixed.
\<close>

fun document_urls :: "string list \<Rightarrow> string list" where
  "document_urls [] = []"
| "document_urls (link # links) =
     (if link \<noteq> []
      then (documentBase @ (if hd link \<noteq> CHR ''/'' then ''/'' @ link else link))
             # document_urls links
      else document_urls links)"

section \<open>Ingestion (cmd/cao-uploader/main.go)\<close>

text \<open>
  \<open>filepath.Base\<close> of the Go standard library on a system whose separator is \<open>/\<close>
  and that has no volume names: the empty path gives \<open>.\<close>; trailing slashes are
  stripped; what follows the last remaining slash is the result, or \<open>/\<close> when
  nothing is left.
\<close>

definition strip_trailing_slashes :: "string \<Rightarrow> string" where
  "strip_trailing_slashes path = rev (dropWhile (\<lambda>c. c = CHR ''/'') (rev path))"

definition last_element :: "string \<Rightarrow> string" where
  "last_element path = rev (takeWhile (\<lambda>c. c \<noteq> CHR ''/'') (rev path))"

definition filepath_Base :: "string \<Rightarrow> string" where
  "filepath_Base path =
     (if path = [] then ''.''
      else let p = last_element (strip_trailing_slashes path)
           in if p = [] then ''/'' else p)"

text \<open>The verb \<open>%d\<close> on a non-negative integer: its decimal digits.\<close>

definition digit :: "nat \<Rightarrow> char" where
  "digit d = ''0123456789'' ! d"

fun decimal :: "nat \<Rightarrow> string" where
  "decimal n = (if n < 10 then [digit n] else decimal (n div 10) @ [digit (n mod 10)])"

declare decimal.simps [simp del]

text \<open>
  The display name of the candidate at (0-based) position \<open>i\<close> (main.go, lines 80-83).
\<close>

definition derive_name :: "nat \<Rightarrow> string \<Rightarrow> string" where
  "derive_name i url =
     (let fileName = filepath_Base url
      in if fileName = [] \<or> fileName = ''.''
         then ''document_'' @ decimal (i + 1) @ ''.pdf''
         else fileName)"

text \<open>\<open>Document\<close> of service.go; times are kept as the strings they are rendered to.\<close>

record Document =
  doc_Name :: string
  doc_DisplayName :: string
  doc_CreateTime :: string
  doc_UpdateTime :: string
  doc_CustomMetadata :: "(string \<times> string) list"

text \<open>
  The configuration that \<open>UploadDocumentWithURL\<close> builds (service.go, lines 158-171).
\<close>

record UploadConfig =
  cfg_DisplayName :: string
  cfg_MIMEType :: string
  cfg_CustomMetadata :: "(string \<times> string) list"

definition upload_config :: "string \<Rightarrow> string \<Rightarrow> UploadConfig" where
  "upload_config fileName sourceURL =
     (let config = \<lparr>cfg_DisplayName = fileName, cfg_MIMEType = ''application/pdf'',
                     cfg_CustomMetadata = []\<rparr>
      in if sourceURL \<noteq> []
         then config\<lparr>cfg_CustomMetadata := [(''source_url'', sourceURL)]\<rparr>
         else config)"

text \<open>
  The environment of one run. The remote calls are outside the program, so their
  outcomes are inputs: whether listing the store's documents fails, how many documents
  the service puts on one page of a listing, what a download of the candidate at a
  position returns, and whether the upload of the candidate at a position is accepted;
  an accepted upload comes with the resource name and the times the service gives the
  new document.
\<close>

record remote =
  listing_fails :: bool
  page_size :: nat
  download :: "nat \<Rightarrow> string \<Rightarrow> error + string"
  accept_upload :: "nat \<Rightarrow> UploadConfig \<Rightarrow> error + (string \<times> string \<times> string)"

text \<open>
  The external store as a state: the documents it holds, in the order the service lists
  them. An accepted upload adds one document under the display name and metadata of
  the upload's configuration.

  \<open>ListDocuments\<close> (service.go, lines 125-149) makes one call of \<open>Documents.List\<close>
  with a \<open>nil\<close> configuration and converts \<open>docList.Items\<close>: the items of the first
  page. It does not follow the page's next-page token, so what it returns is the first
  \<open>page_size\<close> documents of the store.
\<close>

definition ListDocuments :: "remote \<Rightarrow> Document list \<Rightarrow> error + Document list" where
  "ListDocuments env store =
     (if listing_fails env then Inl (Error ''failed to list documents'')
      else Inr (take (page_size env) store))"

definition stored_document :: "UploadConfig \<Rightarrow> string \<times> string \<times> string \<Rightarrow> Document" where
  "stored_document config meta =
     (case meta of (name, created, updated) \<Rightarrow>
        \<lparr>doc_Name = name, doc_DisplayName = cfg_DisplayName config,
         doc_CreateTime = created, doc_UpdateTime = updated,
         doc_CustomMetadata = cfg_CustomMetadata config\<rparr>)"

definition UploadDocumentWithURL ::
  "remote \<Rightarrow> nat \<Rightarrow> string \<Rightarrow> string \<Rightarrow> Document list \<Rightarrow> error + Document list" where
  "UploadDocumentWithURL env i fileName sourceURL store =
     (let config = upload_config fileName sourceURL
      in case accept_upload env i config of
           Inl err \<Rightarrow> Inl err
         | Inr meta \<Rightarrow> Inr (store @ [stored_document config meta]))"

text \<open>The remote calls a run makes, tagged with the candidate's position.\<close>

datatype event = Fetch nat string | Upload nat string string

fun event_index :: "event \<Rightarrow> nat" where
  "event_index (Fetch i url) = i"
| "event_index (Upload i fileName url) = i"

record ingest_state =
  uploadedCount :: nat
  skippedCount :: nat
  store_docs :: "Document list"
  trace :: "event list"

text \<open>
  \<open>existingFiles\<close> (main.go, lines 69-72), a \<open>map[string]bool\<close> that is \<open>False\<close> on
  absent keys.
\<close>

fun existing_loop :: "Document list \<Rightarrow> (string \<Rightarrow> bool) \<Rightarrow> (string \<Rightarrow> bool)" where
  "existing_loop [] existingFiles = existingFiles"
| "existing_loop (doc # docs) existingFiles =
     existing_loop docs (existingFiles(doc_DisplayName doc := True))"

text \<open>
  The body of the loop over the candidates (main.go, lines 79-108) for the candidate
  \<open>url\<close> at position \<open>i\<close>; every \<open>continue\<close> ends the body with the state reached.
\<close>

definition ingest_step ::
  "remote \<Rightarrow> (string \<Rightarrow> bool) \<Rightarrow> nat \<Rightarrow> string \<Rightarrow> ingest_state \<Rightarrow> ingest_state" where
  "ingest_step env existingFiles i url s =
     (let fileName = derive_name i url
      in if existingFiles fileName
         then s\<lparr>skippedCount := skippedCount s + 1\<rparr>
         else case download env i url of
                Inl err \<Rightarrow> s\<lparr>trace := trace s @ [Fetch i url]\<rparr>
              | Inr reader \<Rightarrow>
                  (case UploadDocumentWithURL env i fileName url (store_docs s) of
                     Inl err \<Rightarrow> s\<lparr>trace := trace s @ [Fetch i url, Upload i fileName url]\<rparr>
                   | Inr store' \<Rightarrow>
                       s\<lparr>uploadedCount := uploadedCount s + 1,
                         store_docs := store',
                         trace := trace s @ [Fetch i url, Upload i fileName url]\<rparr>))"

text \<open>The loop over the candidates (line 78); \<open>i\<close> is the position of the head.\<close>

fun ingest_loop ::
  "remote \<Rightarrow> (string \<Rightarrow> bool) \<Rightarrow> nat \<Rightarrow> string list \<Rightarrow> ingest_state \<Rightarrow> ingest_state" where
  "ingest_loop env existingFiles i [] s = s"
| "ingest_loop env existingFiles i (url # urls) s =
     ingest_loop env existingFiles (i + 1) urls (ingest_step env existingFiles i url s)"

text \<open>The documents the listing step hands to the loop (lines 63-67).\<close>

definition existing_documents :: "remote \<Rightarrow> Document list \<Rightarrow> Document list" where
  "existing_documents env store =
     (case ListDocuments env store of Inl err \<Rightarrow> [] | Inr docs \<Rightarrow> docs)"

text \<open>One run of the ingestion (lines 62-111) on a store and a candidate list.\<close>

definition Ingest :: "remote \<Rightarrow> Document list \<Rightarrow> string list \<Rightarrow> ingest_state" where
  "Ingest env store urls =
     ingest_loop env (existing_loop (existing_documents env store) (\<lambda>_. False)) 0 urls
       \<lparr>uploadedCount = 0, skippedCount = 0, store_docs = store, trace = []\<rparr>"

text \<open>The display names a run uploads under, and the positions it skips.\<close>

fun uploaded_names :: "event list \<Rightarrow> string list" where
  "uploaded_names [] = []"
| "uploaded_names (Fetch i url # es) = uploaded_names es"
| "uploaded_names (Upload i fileName url # es) = fileName # uploaded_names es"

fun candidate_names :: "nat \<Rightarrow> string list \<Rightarrow> string list" where
  "candidate_names i [] = []"
| "candidate_names i (url # urls) = derive_name i url # candidate_names (i + 1) urls"

section \<open>Concrete inputs\<close>

definition good_remote :: remote where
  "good_remote =
     \<lparr>listing_fails = False,
      page_size = 10,
      download = (\<lambda>i url. Inr ''%PDF''),
      accept_upload = (\<lambda>i config. Inr (''documents/'' @ decimal i, ''t0'', ''t0''))\<rparr>"

definition stored_a :: Document where
  "stored_a =
     \<lparr>doc_Name = ''documents/a'', doc_DisplayName = ''a.pdf'', doc_CreateTime = ''t0'',
      doc_UpdateTime = ''t0'', doc_CustomMetadata = [(''source_url'', ''https://x/a.pdf'')]\<rparr>"

definition two_urls :: "string list" where
  "two_urls = [''https://x/a.pdf'', ''https://x/b.pdf'']"

definition twelve_links :: "string list" where
  "twelve_links =
     [''/01.pdf'', ''/02.pdf'', ''/03.pdf'', ''/04.pdf'', ''/05.pdf'', ''/06.pdf'',
      ''/07.pdf'', ''/08.pdf'', ''/09.pdf'', ''/10.pdf'', ''/11.pdf'', ''/12.pdf'']"

definition twelve_urls :: "string list" where
  "twelve_urls = document_urls twelve_links"

definition example_stores :: "error + Store list" where
  "example_stores =
     Inr [\<lparr>store_Name = ''fileSearchStores/cao'', store_DisplayName = ''cao-documents'',
           store_CreateTime = ''t0'', store_UpdateTime = ''t0''\<rparr>]"

definition history_request :: QueryRequest where
  "history_request =
     \<lparr>req_Query = ''Q2'', req_StoreName = ''cao-documents'',
      req_History = [\<lparr>hm_Role = ''user'', hm_Content = ''Q1''\<rparr>,
                     \<lparr>hm_Role = ''assistant'', hm_Content = ''A1''\<rparr>]\<rparr>"

definition nil_content_response :: "genai_GenerateContentResponse option" where
  "nil_content_response =
     Some \<lparr>resp_Candidates =
       [Some \<lparr>cand_Content = None, cand_CitationMetadata = None,
              cand_GroundingMetadata = None\<rparr>]\<rparr>"

definition file_chunk :: "string \<Rightarrow> string \<Rightarrow> genai_GroundingChunk option" where
  "file_chunk title uri =
     Some \<lparr>gchunk_Web = None,
           gchunk_RetrievedContext = Some \<lparr>grc_Title = title, grc_URI = uri\<rparr>\<rparr>"

definition text_part :: "string \<Rightarrow> genai_Part option" where
  "text_part t = Some \<lparr>part_Text = t\<rparr>"

definition two_candidates_response :: "genai_GenerateContentResponse option" where
  "two_candidates_response =
     Some \<lparr>resp_Candidates =
       [Some \<lparr>cand_Content = Some \<lparr>content_Parts = [text_part ''ab'', text_part [], text_part ''c'']\<rparr>,
              cand_CitationMetadata =
                Some \<lparr>cm_Citations =
                  [Some \<lparr>gcit_StartIndex = 10, gcit_EndIndex = 25, gcit_Title = ''t'', gcit_URI = []\<rparr>]\<rparr>,
              cand_GroundingMetadata =
                Some \<lparr>gm_GroundingChunks = [file_chunk ''fileA'' ''u1''],
                      gm_WebSearchQueries = [''q1'']\<rparr>\<rparr>,
        Some \<lparr>cand_Content = Some \<lparr>content_Parts = [text_part ''d'']\<rparr>,
              cand_CitationMetadata = None,
              cand_GroundingMetadata =
                Some \<lparr>gm_GroundingChunks = [file_chunk ''fileB'' ''u2'', file_chunk ''fileB'' ''u3''],
                      gm_WebSearchQueries = [''q2'']\<rparr>\<rparr>]\<rparr>"

definition both_chunk :: genai_GroundingChunk where
  "both_chunk =
     \<lparr>gchunk_Web = Some \<lparr>gweb_URI = ''https://w'', gweb_Title = ''w''\<rparr>,
      gchunk_RetrievedContext = Some \<lparr>grc_Title = ''fileA'', grc_URI = ''u1''\<rparr>\<rparr>"

definition both_response :: "genai_GenerateContentResponse option" where
  "both_response =
     Some \<lparr>resp_Candidates =
       [Some \<lparr>cand_Content = Some \<lparr>content_Parts = []\<rparr>,
              cand_CitationMetadata = None,
              cand_GroundingMetadata =
                Some \<lparr>gm_GroundingChunks = [Some both_chunk], gm_WebSearchQueries = []\<rparr>\<rparr>]\<rparr>"

definition named_chunk :: "string \<Rightarrow> string \<Rightarrow> GroundingChunk" where
  "named_chunk fileName uri =
     \<lparr>chunk_Web = None, chunk_File = Some \<lparr>file_FileName = fileName, file_URI = uri\<rparr>\<rparr>"

section \<open>The loops of the normalizer\<close>

lemma parts_loop_ok:
  "no_nil ps \<Longrightarrow>
   parts_loop ps r = Inr (r\<lparr>pr_Parts := pr_Parts r @ filter (\<lambda>t. t \<noteq> []) (map part_Text (somes ps))\<rparr>)"
proof (induction ps r rule: parts_loop.induct)
  case (1 r) show ?case by simp
next
  case (2 ps r) then show ?case by (simp add: no_nil_def)
next
  case (3 p ps r)
  then show ?case by (simp add: no_nil_def)
qed

lemma citations_loop_ok:
  "no_nil cs \<Longrightarrow>
   citations_loop cs r = Inr (r\<lparr>pr_Citations := pr_Citations r @ map citation_of (somes cs)\<rparr>)"
  by (induction cs r rule: citations_loop.induct) (simp_all add: no_nil_def)

lemma chunks_loop_ok:
  "no_nil cs \<Longrightarrow>
   chunks_loop cs gs = Inr (gs\<lparr>gs_GroundingChunks := gs_GroundingChunks gs @ map chunk_of (somes cs)\<rparr>)"
  by (induction cs gs rule: chunks_loop.induct) (simp_all add: no_nil_def)

lemma parts_loop_nil: "\<not> no_nil ps \<Longrightarrow> parts_loop ps r = Inl NilPointerDereference"
  by (induction ps r rule: parts_loop.induct) (simp_all add: no_nil_def)

lemma citations_loop_nil: "\<not> no_nil cs \<Longrightarrow> citations_loop cs r = Inl NilPointerDereference"
  by (induction cs r rule: citations_loop.induct) (simp_all add: no_nil_def)

lemma chunks_loop_nil: "\<not> no_nil cs \<Longrightarrow> chunks_loop cs gs = Inl NilPointerDereference"
  by (induction cs gs rule: chunks_loop.induct) (simp_all add: no_nil_def)

lemma candidate_step_ok:
  assumes "candidate_ok c"
  shows "candidate_step c r =
     Inr \<lparr>pr_Parts = pr_Parts r @ filter (\<lambda>t. t \<noteq> []) (candidate_texts c),
          pr_Citations = pr_Citations r @ map citation_of (candidate_citations c),
          pr_GroundingSupport =
            (case candidate_grounding c of
               None \<Rightarrow> pr_GroundingSupport r
             | Some gm \<Rightarrow> Some (grounding_of gm))\<rparr>"
  using assms
  by (auto simp: candidate_ok_def candidate_step_def candidate_texts_def candidate_citations_def
      candidate_grounding_def grounding_of_def parts_loop_ok citations_loop_ok chunks_loop_ok
      split: option.splits)

lemma no_nil_Nil: "no_nil []"
  by (simp add: no_nil_def)

lemma panic_unique: "(e::panic) = NilPointerDereference"
  by (cases e) simp

lemma candidate_step_returns:
  "candidate_step c r = Inr r' \<Longrightarrow> candidate_ok c"
proof (rule ccontr)
  assume ret: "candidate_step c r = Inr r'" and bad: "\<not> candidate_ok c"
  show False
  proof (cases c)
    case None
    with ret show False by (simp add: candidate_step_def)
  next
    case (Some cd)
    show False
    proof (cases "cand_Content cd")
      case None
      with ret Some show False by (simp add: candidate_step_def)
    next
      case (Some ct)
      note ct = this
      show False
      proof (cases "no_nil (content_Parts ct)")
        case False
        with ret \<open>c = Some cd\<close> ct show False
          by (simp add: candidate_step_def parts_loop_nil)
      next
        case True
        note p = this
        show False
        proof (cases "case cand_CitationMetadata cd of None \<Rightarrow> True | Some cm \<Rightarrow> no_nil (cm_Citations cm)")
          case False
          with ret \<open>c = Some cd\<close> ct p show False
            by (cases "cand_CitationMetadata cd")
               (auto simp: candidate_step_def parts_loop_ok citations_loop_nil no_nil_Nil
                   split: if_splits)
        next
          case True
          note cm = this
          from bad \<open>c = Some cd\<close> ct p cm
          obtain gm where gm: "cand_GroundingMetadata cd = Some gm" "\<not> no_nil (gm_GroundingChunks gm)"
            by (auto simp: candidate_ok_def split: option.splits)
          with ret \<open>c = Some cd\<close> ct p cm show False
            by (cases "cand_CitationMetadata cd")
               (auto simp: candidate_step_def parts_loop_ok citations_loop_ok chunks_loop_nil
                   split: if_splits)
        qed
      qed
    qed
  qed
qed

lemma candidate_step_nil:
  "\<not> candidate_ok c \<Longrightarrow> candidate_step c r = Inl NilPointerDereference"
proof -
  assume bad: "\<not> candidate_ok c"
  show ?thesis
  proof (cases "candidate_step c r")
    case (Inl e) then show ?thesis using panic_unique [of e] by simp
  next
    case (Inr r') with candidate_step_returns bad show ?thesis by blast
  qed
qed

lemma last_grounding_Cons:
  "last_grounding (c # cs) gs0 =
     last_grounding cs (case candidate_grounding c of None \<Rightarrow> gs0 | Some gm \<Rightarrow> Some (grounding_of gm))"
  by (cases "candidate_grounding c"; cases "somes (map candidate_grounding cs)")
     (simp_all add: last_grounding_def)

lemma candidates_loop_ok:
  "list_all candidate_ok cs \<Longrightarrow>
   candidates_loop cs r =
     Inr \<lparr>pr_Parts = pr_Parts r @ filter (\<lambda>t. t \<noteq> []) (concat (map candidate_texts cs)),
          pr_Citations = pr_Citations r @ map citation_of (concat (map candidate_citations cs)),
          pr_GroundingSupport = last_grounding cs (pr_GroundingSupport r)\<rparr>"
proof (induction cs arbitrary: r)
  case Nil
  show ?case by (simp add: last_grounding_def)
next
  case (Cons c cs)
  then have ok: "candidate_ok c" and rest: "list_all candidate_ok cs" by simp_all
  show ?case
    by (simp add: candidate_step_ok [OF ok] Cons.IH [OF rest] last_grounding_Cons)
qed

lemma candidates_loop_nil:
  "\<not> list_all candidate_ok cs \<Longrightarrow> candidates_loop cs r = Inl NilPointerDereference"
proof (induction cs arbitrary: r)
  case Nil then show ?case by simp
next
  case (Cons c cs)
  show ?case
  proof (cases "candidate_ok c")
    case True
    with Cons.prems have "\<not> list_all candidate_ok cs" by simp
    then show ?thesis by (simp add: candidate_step_ok [OF True] Cons.IH)
  next
    case False
    then show ?thesis by (simp add: candidate_step_nil)
  qed
qed

lemma answer_loop_concat: "answer_loop ps a = a @ concat ps"
  by (induction ps a rule: answer_loop.induct) simp_all

lemma sint_scast_32_64: "sint (scast (w :: 32 word) :: 64 word) = sint w"
  by (simp add: sint_up_scast is_up)

section \<open>Source dedup and the ingestion loop\<close>

lemma keep_first_subset: "set (keep_first_by_name xs) \<subseteq> set xs"
  by (induction xs rule: keep_first_by_name.induct) auto

lemma keep_first_distinct: "distinct (map sd_FileName (keep_first_by_name xs))"
proof (induction xs rule: keep_first_by_name.induct)
  case 1 show ?case by simp
next
  case (2 x xs)
  have "sd_FileName x \<notin> sd_FileName ` set (keep_first_by_name (filter (\<lambda>y. sd_FileName y \<noteq> sd_FileName x) xs))"
    using keep_first_subset [of "filter (\<lambda>y. sd_FileName y \<noteq> sd_FileName x) xs"] by auto
  with 2 show ?case by simp
qed

lemma file_sources_Cons:
  "file_sources (c # cs) =
     (case chunk_File c of
        None \<Rightarrow> file_sources cs
      | Some f \<Rightarrow> \<lparr>sd_FileName = file_FileName f, sd_URI = file_URI f\<rparr> # file_sources cs)"
  by (cases "chunk_File c") (simp_all add: file_sources_def)

lemma file_sources_Nil: "file_sources [] = []"
  by (simp add: file_sources_def)

lemma filter_seen_upd:
  "filter (\<lambda>d. \<not> (seen(k := True)) (g d)) xs =
   filter (\<lambda>y. g y \<noteq> k) (filter (\<lambda>d. \<not> seen (g d)) xs)"
  by (induction xs) simp_all

lemma sources_loop_general:
  "sources_loop cs seen acc =
     acc @ keep_first_by_name (filter (\<lambda>d. \<not> seen (sd_FileName d)) (file_sources cs))"
proof (induction cs arbitrary: seen acc)
  case Nil
  show ?case by (simp add: file_sources_Nil)
next
  case (Cons c cs)
  show ?case
  proof (cases "chunk_File c")
    case None
    then show ?thesis by (simp add: Cons.IH file_sources_Cons)
  next
    case (Some f)
    show ?thesis
    proof (cases "seen (file_FileName f)")
      case True
      with Some show ?thesis by (simp add: Cons.IH file_sources_Cons)
    next
      case False
      have "filter (\<lambda>d. \<not> (seen(file_FileName f := True)) (sd_FileName d)) (file_sources cs) =
            filter (\<lambda>y. sd_FileName y \<noteq> file_FileName f)
              (filter (\<lambda>d. \<not> seen (sd_FileName d)) (file_sources cs))"
        by (rule filter_seen_upd)
      then have "sources_loop cs (seen(file_FileName f := True))
                   (acc @ [\<lparr>sd_FileName = file_FileName f, sd_URI = file_URI f\<rparr>]) =
                 acc @ \<lparr>sd_FileName = file_FileName f, sd_URI = file_URI f\<rparr> #
                   keep_first_by_name (filter (\<lambda>y. sd_FileName y \<noteq> file_FileName f)
                     (filter (\<lambda>d. \<not> seen (sd_FileName d)) (file_sources cs)))"
        by (simp only: Cons.IH append_assoc append_Cons append_Nil)
      with Some False show ?thesis
        by (simp add: file_sources_Cons)
    qed
  qed
qed

lemma existing_loop_iff:
  "existing_loop docs e n \<longleftrightarrow> e n \<or> n \<in> set (map doc_DisplayName docs)"
proof (induction docs arbitrary: e)
  case Nil show ?case by simp
next
  case (Cons d ds)
  show ?case by (simp add: Cons.IH)
qed

lemma uploaded_names_append:
  "uploaded_names (xs @ ys) = uploaded_names xs @ uploaded_names ys"
  by (induction xs rule: uploaded_names.induct) simp_all

section \<open>The normalizer and the response of a query\<close>

lemma parseResponse_ok:
  assumes "response_ok resp"
  shows "parseResponse resp =
     Inr \<lparr>pr_Parts = filter (\<lambda>t. t \<noteq> []) (concat (map candidate_texts (response_candidates resp))),
          pr_Citations = map citation_of (concat (map candidate_citations (response_candidates resp))),
          pr_GroundingSupport = last_grounding (response_candidates resp) None\<rparr>"
proof (cases resp)
  case None
  with assms show ?thesis by (simp add: response_ok_def)
next
  case (Some rs)
  with assms have "list_all candidate_ok (resp_Candidates rs)" by (simp add: response_ok_def)
  from candidates_loop_ok [OF this] Some show ?thesis
    by (simp add: parseResponse_def response_candidates_def)
qed

lemma parseResponse_nil:
  "\<not> response_ok resp \<Longrightarrow> parseResponse resp = Inl NilPointerDereference"
  by (cases resp) (simp_all add: response_ok_def parseResponse_def candidates_loop_nil)

lemma two_candidates_ok: "response_ok two_candidates_response"
  by (simp add: two_candidates_response_def response_ok_def candidate_ok_def no_nil_def
      text_part_def file_chunk_def)

text \<open>
  C8 (the normalizer never raises on absent optional fields, such as a candidate with
  nil content): \<open>parseResponse\<close> guards the citation and grounding metadata pointers,
  but reads \<open>cand.Content.Parts\<close> unguarded. On a response whose only candidate has a
  nil \<open>Content\<close> it does not return a result: it panics with a nil pointer dereference.
\<close>

theorem parseResponse_nil_content_panics:
  "parseResponse nil_content_response = Inl NilPointerDereference"
  by (simp add: nil_content_response_def parseResponse_def candidate_step_def)

text \<open>
  C9: on every response that \<open>parseResponse\<close> can walk, it returns, the parts it
  returns are the non-empty text parts of all candidates in emitted order, and the
  answer that \<open>Query\<close> builds is their concatenation.
\<close>

theorem answer_is_concatenation:
  assumes "response_ok resp"
  shows "\<exists>r. parseResponse resp = Inr r \<and>
     pr_Parts r = filter (\<lambda>t. t \<noteq> []) (concat (map candidate_texts (response_candidates resp))) \<and>
     qr_Answer (build_response r) =
       concat (filter (\<lambda>t. t \<noteq> []) (concat (map candidate_texts (response_candidates resp))))"
  using parseResponse_ok [OF assms]
  by (simp add: build_response_def Let_def answer_loop_concat split: option.splits)

theorem answer_is_concatenation_witness:
  "response_ok two_candidates_response \<and>
   (\<exists>r. parseResponse two_candidates_response = Inr r \<and>
        pr_Parts r = [''ab'', ''c'', ''d''] \<and> qr_Answer (build_response r) = ''abcd'')"
  using answer_is_concatenation [OF two_candidates_ok] two_candidates_ok
  by (simp add: two_candidates_response_def response_candidates_def candidate_texts_def
      text_part_def)

text \<open>
  C6: on every response that \<open>parseResponse\<close> can walk, the citations of the result
  are the raw citation entries of all candidates, one \<open>Citation\<close> each and in order;
  each carries the entry's start and end offsets, and has the source \<open>{title, uri}\<close>
  exactly when the entry's URI is non-empty, no source otherwise.
\<close>

theorem citations_preserved:
  assumes "response_ok resp"
  shows "(\<exists>r. parseResponse resp = Inr r \<and>
       pr_Citations r = map citation_of (concat (map candidate_citations (response_candidates resp))) \<and>
       qr_Citations (build_response r) = pr_Citations r) \<and>
     (\<forall>c. sint (cit_StartIndex (citation_of c)) = sint (gcit_StartIndex c) \<and>
          sint (cit_EndIndex (citation_of c)) = sint (gcit_EndIndex c) \<and>
          cit_Sources (citation_of c) =
            (if gcit_URI c = [] then []
             else [\<lparr>src_Title = gcit_Title c, src_URI = gcit_URI c\<rparr>]))"
  using parseResponse_ok [OF assms]
  by (simp add: build_response_def Let_def citation_of_def sint_scast_32_64 split: option.splits)

theorem citations_preserved_witness:
  "response_ok two_candidates_response \<and>
   (\<exists>r. parseResponse two_candidates_response = Inr r \<and>
        pr_Citations r = [\<lparr>cit_StartIndex = 10, cit_EndIndex = 25, cit_Sources = []\<rparr>])"
proof -
  from citations_preserved [OF two_candidates_ok]
  obtain r where r: "parseResponse two_candidates_response = Inr r"
    "pr_Citations r =
       map citation_of (concat (map candidate_citations (response_candidates two_candidates_response)))"
    by blast
  have "map citation_of (concat (map candidate_citations (response_candidates two_candidates_response)))
        = [\<lparr>cit_StartIndex = 10, cit_EndIndex = 25, cit_Sources = []\<rparr>]"
    by (simp add: two_candidates_response_def response_candidates_def candidate_citations_def
        citation_of_def)
  with r two_candidates_ok show ?thesis by simp
qed

text \<open>
  C7, as stated, fails: a raw chunk that carries web fields and retrieved-context
  fields with a non-empty URI is normalized to a chunk with both variants set.
\<close>

theorem chunk_both_variants_counterexample:
  "parseResponse both_response =
     Inr \<lparr>pr_Parts = [], pr_Citations = [],
          pr_GroundingSupport =
            Some \<lparr>gs_GroundingChunks =
                    [\<lparr>chunk_Web = Some \<lparr>web_URI = ''https://w'', web_Title = ''w''\<rparr>,
                      chunk_File = Some \<lparr>file_FileName = ''fileA'', file_URI = ''u1''\<rparr>\<rparr>],
                  gs_WebSearchQueries = []\<rparr>\<rparr> \<and>
   chunk_Web (chunk_of both_chunk) \<noteq> None \<and> chunk_File (chunk_of both_chunk) \<noteq> None"
  by (simp add: both_response_def both_chunk_def parseResponse_def candidate_step_def
      chunk_of_def)

text \<open>
  C7, amended: a normalized chunk has its web variant set exactly when the raw chunk
  carries web fields, and its file variant set exactly when the raw chunk carries
  retrieved-context fields with a non-empty URI; the two are set independently of each
  other, so a chunk matching neither is an empty entry, and the loop over non-nil raw
  chunks returns one normalized chunk per raw chunk without an error.
\<close>

theorem chunk_classification:
  "chunk_Web (chunk_of c) =
     (case gchunk_Web c of
        None \<Rightarrow> None
      | Some w \<Rightarrow> Some \<lparr>web_URI = gweb_URI w, web_Title = gweb_Title w\<rparr>) \<and>
   chunk_File (chunk_of c) =
     (case gchunk_RetrievedContext c of
        None \<Rightarrow> None
      | Some rc \<Rightarrow>
          if grc_URI rc = [] then None
          else Some \<lparr>file_FileName = grc_Title rc, file_URI = grc_URI rc\<rparr>) \<and>
   chunks_loop (map Some cs) gs =
     Inr (gs\<lparr>gs_GroundingChunks := gs_GroundingChunks gs @ map chunk_of cs\<rparr>)"
proof -
  have nn: "no_nil (map Some cs)" by (simp add: no_nil_def list_all_iff)
  have sm: "somes (map Some cs) = cs" by (induction cs) simp_all
  show ?thesis
    by (simp add: chunk_of_def chunks_loop_ok [OF nn] sm split: option.splits)
qed

theorem chunk_classification_witness:
  "chunk_of both_chunk =
     \<lparr>chunk_Web = Some \<lparr>web_URI = ''https://w'', web_Title = ''w''\<rparr>,
      chunk_File = Some \<lparr>file_FileName = ''fileA'', file_URI = ''u1''\<rparr>\<rparr> \<and>
   chunk_of \<lparr>gchunk_Web = None, gchunk_RetrievedContext = Some \<lparr>grc_Title = ''fileA'', grc_URI = []\<rparr>\<rparr> =
     \<lparr>chunk_Web = None, chunk_File = None\<rparr>"
  using chunk_classification [of both_chunk "[]" "\<lparr>gs_GroundingChunks = [], gs_WebSearchQueries = []\<rparr>"]
    chunk_classification [of "\<lparr>gchunk_Web = None, gchunk_RetrievedContext = Some \<lparr>grc_Title = ''fileA'', grc_URI = []\<rparr>\<rparr>"
      "[]" "\<lparr>gs_GroundingChunks = [], gs_WebSearchQueries = []\<rparr>"]
  by (simp add: both_chunk_def GroundingChunk.equality)

lemma build_response_sources:
  "qr_Sources (build_response r) =
     (case pr_GroundingSupport r of
        None \<Rightarrow> []
      | Some gs \<Rightarrow> keep_first_by_name (file_sources (gs_GroundingChunks gs)))"
  by (simp add: build_response_def Let_def sources_loop_general split: option.splits)

text \<open>
  C10: when at least one candidate carries grounding metadata, the grounding support
  of the result is that of the last such candidate alone: its chunks and its web
  search queries. The derived source list is computed from these chunks only, while
  the text parts are those of all candidates.
\<close>

theorem last_grounding_wins:
  assumes "response_ok resp"
    and "somes (map candidate_grounding (response_candidates resp)) = gms"
    and "gms \<noteq> []"
  shows "\<exists>r. parseResponse resp = Inr r \<and>
     pr_GroundingSupport r = Some (grounding_of (last gms)) \<and>
     qr_GroundingSupport (build_response r) = Some (grounding_of (last gms)) \<and>
     qr_Sources (build_response r) =
       keep_first_by_name (file_sources (map chunk_of (somes (gm_GroundingChunks (last gms))))) \<and>
     pr_Parts r = filter (\<lambda>t. t \<noteq> []) (concat (map candidate_texts (response_candidates resp)))"
proof -
  from assms(2,3) have lg: "last_grounding (response_candidates resp) None = Some (grounding_of (last gms))"
    by (cases gms) (simp_all add: last_grounding_def)
  show ?thesis
    using parseResponse_ok [OF assms(1)] lg
    by (simp add: build_response_sources grounding_of_def) (simp add: build_response_def Let_def)
qed

theorem last_grounding_wins_witness:
  "response_ok two_candidates_response \<and>
   (\<exists>r. parseResponse two_candidates_response = Inr r \<and>
        pr_GroundingSupport r =
          Some \<lparr>gs_GroundingChunks =
                  [\<lparr>chunk_Web = None, chunk_File = Some \<lparr>file_FileName = ''fileB'', file_URI = ''u2''\<rparr>\<rparr>,
                   \<lparr>chunk_Web = None, chunk_File = Some \<lparr>file_FileName = ''fileB'', file_URI = ''u3''\<rparr>\<rparr>],
                gs_WebSearchQueries = [''q2'']\<rparr> \<and>
        qr_Sources (build_response r) = [\<lparr>sd_FileName = ''fileB'', sd_URI = ''u2''\<rparr>] \<and>
        pr_Parts r = [''ab'', ''c'', ''d''])"
proof -
  let ?g1 = "\<lparr>gm_GroundingChunks = [file_chunk ''fileA'' ''u1''], gm_WebSearchQueries = [''q1'']\<rparr>"
  let ?g2 = "\<lparr>gm_GroundingChunks = [file_chunk ''fileB'' ''u2'', file_chunk ''fileB'' ''u3''],
              gm_WebSearchQueries = [''q2'']\<rparr>"
  have gms: "somes (map candidate_grounding (response_candidates two_candidates_response)) = [?g1, ?g2]"
    by (simp add: two_candidates_response_def response_candidates_def candidate_grounding_def)
  have ne: "[?g1, ?g2] \<noteq> []" by simp
  from last_grounding_wins [OF two_candidates_ok gms ne]
  obtain r where r: "parseResponse two_candidates_response = Inr r"
    "pr_GroundingSupport r = Some (grounding_of (last [?g1, ?g2]))"
    "qr_Sources (build_response r) =
       keep_first_by_name (file_sources (map chunk_of (somes (gm_GroundingChunks (last [?g1, ?g2])))))"
    "pr_Parts r = filter (\<lambda>t. t \<noteq> []) (concat (map candidate_texts (response_candidates two_candidates_response)))"
    by blast
  have a: "grounding_of (last [?g1, ?g2]) =
          \<lparr>gs_GroundingChunks =
                  [\<lparr>chunk_Web = None, chunk_File = Some \<lparr>file_FileName = ''fileB'', file_URI = ''u2''\<rparr>\<rparr>,
                   \<lparr>chunk_Web = None, chunk_File = Some \<lparr>file_FileName = ''fileB'', file_URI = ''u3''\<rparr>\<rparr>],
                gs_WebSearchQueries = [''q2'']\<rparr>"
    by (simp add: grounding_of_def file_chunk_def chunk_of_def)
  have b: "keep_first_by_name (file_sources (map chunk_of (somes (gm_GroundingChunks (last [?g1, ?g2])))))
           = [\<lparr>sd_FileName = ''fileB'', sd_URI = ''u2''\<rparr>]"
    by (simp add: file_chunk_def chunk_of_def file_sources_def)
  have c: "filter (\<lambda>t. t \<noteq> []) (concat (map candidate_texts (response_candidates two_candidates_response)))
           = [''ab'', ''c'', ''d'']"
    by (simp add: two_candidates_response_def response_candidates_def candidate_texts_def text_part_def)
  from r a b c two_candidates_ok show ?thesis by simp
qed

text \<open>
  C5: the source list that \<open>Query\<close> derives from a chunk sequence is the sequence of
  file-variant chunks with the first occurrence of each file name kept and repeats
  skipped; its file names are distinct and are exactly the file names that occur.
\<close>

theorem source_dedup:
  "sources_loop chunks (\<lambda>_. False) [] = keep_first_by_name (file_sources chunks) \<and>
   distinct (map sd_FileName (sources_loop chunks (\<lambda>_. False) [])) \<and>
   set (map sd_FileName (sources_loop chunks (\<lambda>_. False) [])) = set (map sd_FileName (file_sources chunks)) \<and>
   qr_Sources (build_response r) =
     (case pr_GroundingSupport r of
        None \<Rightarrow> []
      | Some gs \<Rightarrow> keep_first_by_name (file_sources (gs_GroundingChunks gs)))"
proof -
  have names: "set (map sd_FileName (keep_first_by_name xs)) = set (map sd_FileName xs)" for xs
  proof (induction xs rule: keep_first_by_name.induct)
    case 1 show ?case by simp
  next
    case (2 x xs)
    then show ?case by auto
  qed
  show ?thesis
    using names [of "file_sources chunks"]
    by (simp add: sources_loop_general keep_first_distinct build_response_sources)
qed

theorem source_dedup_witness:
  "sources_loop [named_chunk ''fileA'' ''u1'', named_chunk ''fileB'' ''u2'',
                 named_chunk ''fileA'' ''u3'', named_chunk ''fileC'' ''u4''] (\<lambda>_. False) [] =
     [\<lparr>sd_FileName = ''fileA'', sd_URI = ''u1''\<rparr>, \<lparr>sd_FileName = ''fileB'', sd_URI = ''u2''\<rparr>,
      \<lparr>sd_FileName = ''fileC'', sd_URI = ''u4''\<rparr>]"
proof -
  have "keep_first_by_name (file_sources [named_chunk ''fileA'' ''u1'', named_chunk ''fileB'' ''u2'',
                 named_chunk ''fileA'' ''u3'', named_chunk ''fileC'' ''u4'']) =
     [\<lparr>sd_FileName = ''fileA'', sd_URI = ''u1''\<rparr>, \<lparr>sd_FileName = ''fileB'', sd_URI = ''u2''\<rparr>,
      \<lparr>sd_FileName = ''fileC'', sd_URI = ''u4''\<rparr>]"
    by (simp add: file_sources_def named_chunk_def)
  with source_dedup [of "[named_chunk ''fileA'' ''u1'', named_chunk ''fileB'' ''u2'',
                 named_chunk ''fileA'' ''u3'', named_chunk ''fileC'' ''u4'']"]
  show ?thesis by simp
qed

section \<open>Display names\<close>

lemma digit_inj: "a < 10 \<Longrightarrow> b < 10 \<Longrightarrow> digit a = digit b \<Longrightarrow> a = b"
proof -
  assume a: "a < 10" and b: "b < 10" and e: "digit a = digit b"
  have d: "distinct ''0123456789''" by simp
  have l: "length ''0123456789'' = 10" by simp
  from a b e d l show "a = b"
    unfolding digit_def by (metis nth_eq_iff_index_eq)
qed

lemma decimal_nonempty: "decimal n \<noteq> []"
  by (subst decimal.simps) simp

lemma decimal_inj: "decimal m = decimal n \<Longrightarrow> m = n"
proof (induction n arbitrary: m rule: decimal.induct)
  case (1 n)
  show ?case
  proof (cases "n < 10")
    case True
    note n = this
    show ?thesis
    proof (cases "m < 10")
      case True
      with n "1.prems" have "digit m = digit n"
        by (simp add: decimal.simps [of m] decimal.simps [of n])
      with True n show ?thesis by (rule digit_inj)
    next
      case False
      with n "1.prems" have "decimal (m div 10) @ [digit (m mod 10)] = [digit n]"
        by (simp add: decimal.simps [of m] decimal.simps [of n])
      then have "decimal (m div 10) = []" by (simp add: append_eq_Cons_conv)
      with decimal_nonempty show ?thesis by blast
    qed
  next
    case False
    note n = this
    show ?thesis
    proof (cases "m < 10")
      case True
      with n "1.prems" have "[digit m] = decimal (n div 10) @ [digit (n mod 10)]"
        by (simp add: decimal.simps [of m] decimal.simps [of n])
      then have "decimal (n div 10) = []" by (simp add: Cons_eq_append_conv)
      with decimal_nonempty show ?thesis by blast
    next
      case False
      with n "1.prems" have "decimal (m div 10) @ [digit (m mod 10)] = decimal (n div 10) @ [digit (n mod 10)]"
        by (simp add: decimal.simps [of m] decimal.simps [of n])
      then have e: "decimal (m div 10) = decimal (n div 10)" "digit (m mod 10) = digit (n mod 10)"
        by simp_all
      from "1.IH" [OF n e(1)] have q: "m div 10 = n div 10" .
      have "m mod 10 = n mod 10" by (rule digit_inj [OF _ _ e(2)]) simp_all
      with q show ?thesis by (metis div_mult_mod_eq)
    qed
  qed
qed

lemma filepath_Base_nonempty: "filepath_Base path \<noteq> []"
  by (simp add: filepath_Base_def Let_def)

lemma strip_keeps:
  "path \<noteq> [] \<Longrightarrow> last path \<noteq> CHR ''/'' \<Longrightarrow> strip_trailing_slashes path = path"
proof -
  assume ne: "path \<noteq> []" and l: "last path \<noteq> CHR ''/''"
  then have "hd (rev path) \<noteq> CHR ''/''" by (simp add: hd_rev)
  with ne have "dropWhile (\<lambda>c. c = CHR ''/'') (rev path) = rev path"
    by (simp add: dropWhile_eq_self_iff)
  then show ?thesis by (simp add: strip_trailing_slashes_def)
qed

lemma strip_one_slash:
  "strip_trailing_slashes (path @ ''/'') = strip_trailing_slashes path"
  by (simp add: strip_trailing_slashes_def)

lemma last_element_segment:
  "CHR ''/'' \<notin> set name \<Longrightarrow> last_element (p @ CHR ''/'' # name) = name"
proof -
  assume n: "CHR ''/'' \<notin> set name"
  have "takeWhile (\<lambda>c. c \<noteq> CHR ''/'') (rev name @ CHR ''/'' # rev p) =
        rev name @ takeWhile (\<lambda>c. c \<noteq> CHR ''/'') (CHR ''/'' # rev p)"
    by (rule takeWhile_append2) (use n in auto)
  then have "takeWhile (\<lambda>c. c \<noteq> CHR ''/'') (rev name @ CHR ''/'' # rev p) = rev name"
    by simp
  then show ?thesis by (simp add: last_element_def)
qed

lemma filepath_Base_segment:
  assumes "name \<noteq> []" and "CHR ''/'' \<notin> set name"
  shows "filepath_Base (p @ CHR ''/'' # name) = name"
proof -
  from assms have "last (p @ CHR ''/'' # name) \<noteq> CHR ''/''"
    by (auto simp: last_append dest: last_in_set)
  then have "strip_trailing_slashes (p @ CHR ''/'' # name) = p @ CHR ''/'' # name"
    by (intro strip_keeps) simp_all
  with assms show ?thesis
    by (simp add: filepath_Base_def Let_def last_element_segment)
qed

lemma filepath_Base_trailing_slash:
  "path \<noteq> [] \<Longrightarrow> filepath_Base (path @ ''/'') = filepath_Base path"
  by (simp add: filepath_Base_def strip_one_slash)

lemma derive_name_trailing_slash:
  "url \<noteq> [] \<Longrightarrow> derive_name i (url @ ''/'') = derive_name i url"
  by (simp add: derive_name_def filepath_Base_trailing_slash)

lemma derive_name_segment:
  assumes "name \<noteq> []" and "CHR ''/'' \<notin> set name" and "name \<noteq> ''.''"
  shows "derive_name i (p @ CHR ''/'' # name) = name"
  using assms by (simp add: derive_name_def filepath_Base_segment Let_def)

lemma synthesized_names_distinct:
  "i \<noteq> j \<Longrightarrow>
   ''document_'' @ decimal (i + 1) @ ''.pdf'' \<noteq> ''document_'' @ decimal (j + 1) @ ''.pdf''"
proof -
  assume "i \<noteq> j"
  then have "decimal (i + 1) \<noteq> decimal (j + 1)" using decimal_inj [of "i + 1" "j + 1"] by auto
  then show ?thesis by simp
qed

section \<open>The ingestion run\<close>

lemma ingest_step_skip:
  "ex (derive_name i url) \<Longrightarrow>
   ingest_step env ex i url s = s\<lparr>skippedCount := skippedCount s + 1\<rparr>"
  by (simp add: ingest_step_def)

lemma ingest_step_skipped:
  "skippedCount (ingest_step env ex i url s) =
     skippedCount s + (if ex (derive_name i url) then 1 else 0)"
  by (simp add: ingest_step_def Let_def split: sum.splits)

lemma ingest_step_trace:
  "\<exists>es. trace (ingest_step env ex i url s) = trace s @ es \<and>
        (\<forall>e \<in> set es. event_index e = i \<and> \<not> ex (derive_name i url)) \<and>
        set (uploaded_names es) \<subseteq> {n. \<not> ex n}"
  by (auto simp: ingest_step_def Let_def split: sum.splits)

lemma ingest_step_store:
  "set (store_docs s) \<subseteq> set (store_docs (ingest_step env ex i url s))"
  by (auto simp: ingest_step_def Let_def UploadDocumentWithURL_def split: sum.splits)

lemma ingest_step_count:
  "uploadedCount (ingest_step env ex i url s) + skippedCount (ingest_step env ex i url s)
     \<le> uploadedCount s + skippedCount s + 1"
  by (simp add: ingest_step_def Let_def split: sum.splits)

lemma ingest_step_complete:
  "uploadedCount (ingest_step env ex i url s) + skippedCount (ingest_step env ex i url s)
     = uploadedCount s + skippedCount s + 1 \<Longrightarrow>
   ex (derive_name i url) \<or>
   derive_name i url \<in> doc_DisplayName ` set (store_docs (ingest_step env ex i url s))"
  by (auto simp: ingest_step_def Let_def UploadDocumentWithURL_def stored_document_def
      upload_config_def split: sum.splits if_splits prod.splits)

lemma ingest_loop_all_skipped:
  "\<forall>n \<in> set (candidate_names i urls). ex n \<Longrightarrow>
   ingest_loop env ex i urls s = s\<lparr>skippedCount := skippedCount s + length urls\<rparr>"
  by (induction urls arbitrary: i s) (simp_all add: ingest_step_skip)

lemma ingest_loop_skipped:
  "skippedCount (ingest_loop env ex i urls s) =
     skippedCount s + length (filter ex (candidate_names i urls))"
  by (induction urls arbitrary: i s) (simp_all add: ingest_step_skipped)

lemma ingest_loop_uploaded_names:
  "set (uploaded_names (trace (ingest_loop env ex i urls s))) \<subseteq>
     set (uploaded_names (trace s)) \<union> {n. \<not> ex n}"
proof (induction urls arbitrary: i s)
  case Nil show ?case by simp
next
  case (Cons url urls)
  from ingest_step_trace [of env ex i url s]
  obtain es where es: "trace (ingest_step env ex i url s) = trace s @ es"
    "set (uploaded_names es) \<subseteq> {n. \<not> ex n}" by blast
  from Cons.IH [where i = "i + 1" and s = "ingest_step env ex i url s"] es
  show ?case by (auto simp: uploaded_names_append)
qed

lemma ingest_loop_events:
  "e \<in> set (trace (ingest_loop env ex i urls s)) \<Longrightarrow>
   e \<in> set (trace s) \<or>
   (i \<le> event_index e \<and> event_index e < i + length urls \<and>
    \<not> ex (derive_name (event_index e) (urls ! (event_index e - i))))"
proof (induction urls arbitrary: i s)
  case Nil then show ?case by simp
next
  case (Cons url urls)
  from ingest_step_trace [of env ex i url s]
  obtain es where es: "trace (ingest_step env ex i url s) = trace s @ es"
    "\<forall>e \<in> set es. event_index e = i \<and> \<not> ex (derive_name i url)" by blast
  from Cons.prems have "e \<in> set (trace (ingest_loop env ex (i + 1) urls (ingest_step env ex i url s)))"
    by simp
  from Cons.IH [OF this]
  consider "e \<in> set (trace s)" | "e \<in> set es"
    | "i + 1 \<le> event_index e" "event_index e < i + 1 + length urls"
      "\<not> ex (derive_name (event_index e) (urls ! (event_index e - (i + 1))))"
    using es(1) by auto
  then show ?case
  proof cases
    case 1 then show ?thesis by simp
  next
    case 2
    with es(2) show ?thesis by simp
  next
    case 3
    from 3(1) obtain d where d: "event_index e - i = Suc d" "event_index e - (i + 1) = d"
      by (cases "event_index e - i") auto
    with 3 show ?thesis by simp
  qed
qed

lemma ingest_loop_store:
  "set (store_docs s) \<subseteq> set (store_docs (ingest_loop env ex i urls s))"
proof (induction urls arbitrary: i s)
  case Nil show ?case by simp
next
  case (Cons url urls)
  from ingest_step_store [of s env ex i url] Cons.IH [where i = "i + 1" and s = "ingest_step env ex i url s"]
  show ?case by auto
qed

lemma ingest_loop_count:
  "uploadedCount (ingest_loop env ex i urls s) + skippedCount (ingest_loop env ex i urls s)
     \<le> uploadedCount s + skippedCount s + length urls"
proof (induction urls arbitrary: i s)
  case Nil show ?case by simp
next
  case (Cons url urls)
  from ingest_step_count [of env ex i url s] Cons.IH [where i = "i + 1" and s = "ingest_step env ex i url s"]
  show ?case by simp
qed

lemma ingest_loop_complete:
  "uploadedCount (ingest_loop env ex i urls s) + skippedCount (ingest_loop env ex i urls s)
     = uploadedCount s + skippedCount s + length urls \<Longrightarrow>
   \<forall>n \<in> set (candidate_names i urls).
      ex n \<or> n \<in> doc_DisplayName ` set (store_docs (ingest_loop env ex i urls s))"
proof (induction urls arbitrary: i s)
  case Nil show ?case by simp
next
  case (Cons url urls)
  let ?s = "ingest_step env ex i url s"
  let ?r = "ingest_loop env ex (i + 1) urls ?s"
  from Cons.prems have tot: "uploadedCount ?r + skippedCount ?r = uploadedCount s + skippedCount s + length urls + 1"
    by simp
  have le1: "uploadedCount ?s + skippedCount ?s \<le> uploadedCount s + skippedCount s + 1"
    by (rule ingest_step_count)
  have le2: "uploadedCount ?r + skippedCount ?r \<le> uploadedCount ?s + skippedCount ?s + length urls"
    by (rule ingest_loop_count)
  from tot le1 le2 have e1: "uploadedCount ?s + skippedCount ?s = uploadedCount s + skippedCount s + 1"
    and e2: "uploadedCount ?r + skippedCount ?r = uploadedCount ?s + skippedCount ?s + length urls"
    by simp_all
  from ingest_step_complete [OF e1]
  have hd: "ex (derive_name i url) \<or> derive_name i url \<in> doc_DisplayName ` set (store_docs ?r)"
    using ingest_loop_store [of ?s env ex "i + 1" urls] by auto
  from Cons.IH [OF e2] hd show ?case by simp
qed

lemma existing_documents_subset:
  "set (existing_documents env store) \<subseteq> set store"
  by (simp add: existing_documents_def ListDocuments_def set_take_subset)

lemma existing_documents_ok:
  "\<not> listing_fails env \<Longrightarrow> existing_documents env store = take (page_size env) store"
  by (simp add: existing_documents_def ListDocuments_def)

lemma existing_files_iff:
  "existing_loop (existing_documents env store) (\<lambda>_. False) n \<longleftrightarrow>
   n \<in> doc_DisplayName ` set (existing_documents env store)"
  by (simp add: existing_loop_iff)

lemma Ingest_all_present:
  assumes "\<forall>n \<in> set (candidate_names 0 urls). n \<in> doc_DisplayName ` set (existing_documents env store)"
  shows "Ingest env store urls =
     \<lparr>uploadedCount = 0, skippedCount = length urls, store_docs = store, trace = []\<rparr>"
proof -
  from assms have "\<forall>n \<in> set (candidate_names 0 urls).
      existing_loop (existing_documents env store) (\<lambda>_. False) n"
    by (simp add: existing_files_iff)
  from ingest_loop_all_skipped [OF this] show ?thesis by (simp add: Ingest_def)
qed

lemma ingest_step_success:
  assumes dl: "\<And>i url. \<exists>r. download env i url = Inr r"
    and up: "\<And>i config. \<exists>m. accept_upload env i config = Inr m"
  shows "uploadedCount (ingest_step env ex i url s) =
           uploadedCount s + (if ex (derive_name i url) then 0 else 1) \<and>
         map doc_DisplayName (store_docs (ingest_step env ex i url s)) =
           map doc_DisplayName (store_docs s) @
           (if ex (derive_name i url) then [] else [derive_name i url])"
proof (cases "ex (derive_name i url)")
  case True
  then show ?thesis by (simp add: ingest_step_def)
next
  case False
  from dl obtain r where r: "download env i url = Inr r" by blast
  from up obtain m where m: "accept_upload env i (upload_config (derive_name i url) url) = Inr m"
    by blast
  obtain a b c where abc: "m = (a, b, c)" by (cases m)
  from False r m abc show ?thesis
    by (simp add: ingest_step_def Let_def UploadDocumentWithURL_def stored_document_def
        upload_config_def)
qed

lemma ingest_loop_success:
  assumes dl: "\<And>i url. \<exists>r. download env i url = Inr r"
    and up: "\<And>i config. \<exists>m. accept_upload env i config = Inr m"
  shows "uploadedCount (ingest_loop env ex i urls s) =
           uploadedCount s + length (filter (\<lambda>n. \<not> ex n) (candidate_names i urls)) \<and>
         map doc_DisplayName (store_docs (ingest_loop env ex i urls s)) =
           map doc_DisplayName (store_docs s) @ filter (\<lambda>n. \<not> ex n) (candidate_names i urls)"
proof (induction urls arbitrary: i s)
  case Nil
  show ?case by simp
next
  case (Cons url urls)
  note st = ingest_step_success [OF dl up, of ex i url s]
  note ih = Cons.IH [where i = "i + 1" and s = "ingest_step env ex i url s"]
  from st ih show ?case by (cases "ex (derive_name i url)") simp_all
qed

lemma Ingest_success:
  assumes dl: "\<And>i url. \<exists>r. download env i url = Inr r"
    and up: "\<And>i config. \<exists>m. accept_upload env i config = Inr m"
  shows "uploadedCount (Ingest env store urls) =
           length (filter (\<lambda>n. n \<notin> doc_DisplayName ` set (existing_documents env store))
                     (candidate_names 0 urls)) \<and>
         skippedCount (Ingest env store urls) =
           length (filter (\<lambda>n. n \<in> doc_DisplayName ` set (existing_documents env store))
                     (candidate_names 0 urls)) \<and>
         map doc_DisplayName (store_docs (Ingest env store urls)) =
           map doc_DisplayName store @
           filter (\<lambda>n. n \<notin> doc_DisplayName ` set (existing_documents env store))
             (candidate_names 0 urls)"
proof -
  let ?ex = "existing_loop (existing_documents env store) (\<lambda>_. False)"
  let ?s0 = "\<lparr>uploadedCount = 0, skippedCount = 0, store_docs = store, trace = []\<rparr>"
  have e1: "filter (\<lambda>n. \<not> ?ex n) xs =
            filter (\<lambda>n. n \<notin> doc_DisplayName ` set (existing_documents env store)) xs" for xs
    by (rule filter_cong) (simp_all add: existing_files_iff)
  have e2: "filter ?ex xs =
            filter (\<lambda>n. n \<in> doc_DisplayName ` set (existing_documents env store)) xs" for xs
    by (rule filter_cong) (simp_all add: existing_files_iff)
  from ingest_loop_success [OF dl up, of ?ex 0 urls ?s0] ingest_loop_skipped [of env ?ex 0 urls ?s0]
  show ?thesis by (simp add: Ingest_def e1 e2)
qed

text \<open>
  When the first run left no candidate behind, the store it left fits on one page of
  the listing and the second listing succeeds, the second run skips every candidate.
\<close>

lemma second_run_within_one_page:
  assumes "uploadedCount (Ingest env1 store urls) + skippedCount (Ingest env1 store urls) = length urls"
    and "\<not> listing_fails env2"
    and "length (store_docs (Ingest env1 store urls)) \<le> page_size env2"
  shows "Ingest env2 (store_docs (Ingest env1 store urls)) urls =
     \<lparr>uploadedCount = 0, skippedCount = length urls,
      store_docs = store_docs (Ingest env1 store urls), trace = []\<rparr>"
proof -
  let ?ex = "existing_loop (existing_documents env1 store) (\<lambda>_. False)"
  let ?s0 = "\<lparr>uploadedCount = 0, skippedCount = 0, store_docs = store, trace = []\<rparr>"
  have r1: "Ingest env1 store urls = ingest_loop env1 ?ex 0 urls ?s0" by (simp add: Ingest_def)
  from assms(1) have "uploadedCount (ingest_loop env1 ?ex 0 urls ?s0) + skippedCount (ingest_loop env1 ?ex 0 urls ?s0)
      = uploadedCount ?s0 + skippedCount ?s0 + length urls"
    by (simp add: r1)
  from ingest_loop_complete [OF this]
  have all: "\<forall>n \<in> set (candidate_names 0 urls).
      ?ex n \<or> n \<in> doc_DisplayName ` set (store_docs (Ingest env1 store urls))"
    by (simp add: r1)
  have sub: "set store \<subseteq> set (store_docs (Ingest env1 store urls))"
    using ingest_loop_store [of ?s0 env1 ?ex 0 urls] by (simp add: r1)
  have "\<forall>n \<in> set (candidate_names 0 urls).
      n \<in> doc_DisplayName ` set (existing_documents env2 (store_docs (Ingest env1 store urls)))"
  proof
    fix n assume "n \<in> set (candidate_names 0 urls)"
    with all have "?ex n \<or> n \<in> doc_DisplayName ` set (store_docs (Ingest env1 store urls))" by blast
    moreover have "?ex n \<Longrightarrow> n \<in> doc_DisplayName ` set (store_docs (Ingest env1 store urls))"
      using existing_documents_subset [of env1 store] sub by (auto simp: existing_files_iff)
    ultimately show "n \<in> doc_DisplayName ` set (existing_documents env2 (store_docs (Ingest env1 store urls)))"
      using assms(3) by (auto simp: existing_documents_ok [OF assms(2)])
  qed
  from Ingest_all_present [OF this] show ?thesis .
qed

text \<open>
  C3: in every run the display names of the upload calls are disjoint from the display
  names the listing step returned; the skipped count is the number of candidates whose
  derived name is among them; and for such a candidate the run makes no fetch and no
  upload call.
\<close>

theorem no_duplicate_uploads:
  "set (uploaded_names (trace (Ingest env store urls))) \<inter>
     set (map doc_DisplayName (existing_documents env store)) = {} \<and>
   skippedCount (Ingest env store urls) =
     length (filter (\<lambda>n. n \<in> set (map doc_DisplayName (existing_documents env store)))
               (candidate_names 0 urls)) \<and>
   (\<forall>i < length urls.
      derive_name i (urls ! i) \<in> set (map doc_DisplayName (existing_documents env store)) \<longrightarrow>
      (\<forall>e \<in> set (trace (Ingest env store urls)). event_index e \<noteq> i))"
proof -
  let ?ex = "existing_loop (existing_documents env store) (\<lambda>_. False)"
  let ?s0 = "\<lparr>uploadedCount = 0, skippedCount = 0, store_docs = store, trace = []\<rparr>"
  have ex: "?ex n \<longleftrightarrow> n \<in> set (map doc_DisplayName (existing_documents env store))" for n
    by (simp add: existing_loop_iff)
  have a: "set (uploaded_names (trace (Ingest env store urls))) \<inter>
     set (map doc_DisplayName (existing_documents env store)) = {}"
    using ingest_loop_uploaded_names [of env ?ex 0 urls ?s0] ex by (auto simp: Ingest_def)
  have b: "skippedCount (Ingest env store urls) =
     length (filter (\<lambda>n. n \<in> set (map doc_DisplayName (existing_documents env store)))
               (candidate_names 0 urls))"
  proof -
    have "filter ?ex (candidate_names 0 urls) =
          filter (\<lambda>n. n \<in> set (map doc_DisplayName (existing_documents env store)))
            (candidate_names 0 urls)"
      by (rule filter_cong) (simp_all add: existing_loop_iff)
    with ingest_loop_skipped [of env ?ex 0 urls ?s0] show ?thesis by (simp add: Ingest_def)
  qed
  have c: "\<forall>i < length urls.
      derive_name i (urls ! i) \<in> set (map doc_DisplayName (existing_documents env store)) \<longrightarrow>
      (\<forall>e \<in> set (trace (Ingest env store urls)). event_index e \<noteq> i)"
  proof (intro allI impI ballI)
    fix i e
    assume i: "i < length urls"
      and p: "derive_name i (urls ! i) \<in> set (map doc_DisplayName (existing_documents env store))"
      and e: "e \<in> set (trace (Ingest env store urls))"
    from e have "e \<in> set (trace (ingest_loop env ?ex 0 urls ?s0))" by (simp add: Ingest_def)
    from ingest_loop_events [OF this]
    have "\<not> ?ex (derive_name (event_index e) (urls ! event_index e))" by simp
    with p ex show "event_index e \<noteq> i" by auto
  qed
  from a b c show ?thesis by blast
qed

section \<open>Ingestion, display names and the prompt on concrete inputs\<close>

lemma Base_a: "filepath_Base ''https://x/a.pdf'' = ''a.pdf''"
  by (simp add: filepath_Base_def strip_trailing_slashes_def last_element_def Let_def)

lemma name_a: "derive_name 0 ''https://x/a.pdf'' = ''a.pdf''"
  by (simp add: derive_name_def Base_a)

theorem no_duplicate_uploads_witness:
  "0 < length two_urls \<and>
   derive_name 0 (two_urls ! 0) \<in> set (map doc_DisplayName (existing_documents good_remote [stored_a])) \<and>
   0 \<notin> set (map event_index (trace (Ingest good_remote [stored_a] two_urls))) \<and>
   set (uploaded_names (trace (Ingest good_remote [stored_a] two_urls))) \<inter> {''a.pdf''} = {}"
proof -
  have l: "0 < length two_urls" by (simp add: two_urls_def)
  have ex: "existing_documents good_remote [stored_a] = [stored_a]"
    by (simp add: existing_documents_def ListDocuments_def good_remote_def)
  have h: "derive_name 0 (two_urls ! 0) \<in> set (map doc_DisplayName (existing_documents good_remote [stored_a]))"
    by (simp add: ex two_urls_def name_a) (simp add: stored_a_def)
  have n: "set (map doc_DisplayName (existing_documents good_remote [stored_a])) = {''a.pdf''}"
    by (simp add: ex) (simp add: stored_a_def)
  note inst = no_duplicate_uploads [of good_remote "[stored_a]" two_urls]
  from inst have disj: "set (uploaded_names (trace (Ingest good_remote [stored_a] two_urls))) \<inter>
     set (map doc_DisplayName (existing_documents good_remote [stored_a])) = {}"
    by (rule conjunct1)
  from inst have "\<forall>i < length two_urls.
      derive_name i (two_urls ! i) \<in> set (map doc_DisplayName (existing_documents good_remote [stored_a])) \<longrightarrow>
      (\<forall>e \<in> set (trace (Ingest good_remote [stored_a] two_urls)). event_index e \<noteq> i)"
    by (rule conjunct2 [THEN conjunct2])
  with l h have "\<forall>e \<in> set (trace (Ingest good_remote [stored_a] two_urls)). event_index e \<noteq> 0"
    by blast
  then have ev: "0 \<notin> set (map event_index (trace (Ingest good_remote [stored_a] two_urls)))"
    by (simp add: image_iff)
  from disj have disj': "set (uploaded_names (trace (Ingest good_remote [stored_a] two_urls))) \<inter> {''a.pdf''} = {}"
    by (simp only: n)
  from l h ev disj' show ?thesis by (intro conjI)
qed

lemma good_remote_download: "\<exists>r. download good_remote i url = Inr r"
  by (simp add: good_remote_def)

lemma good_remote_upload: "\<exists>m. accept_upload good_remote i config = Inr m"
  by (simp add: good_remote_def)

lemma twelve_names:
  "candidate_names 0 twelve_urls =
     [''01.pdf'', ''02.pdf'', ''03.pdf'', ''04.pdf'', ''05.pdf'', ''06.pdf'',
      ''07.pdf'', ''08.pdf'', ''09.pdf'', ''10.pdf'', ''11.pdf'', ''12.pdf'']"
proof -
  have seg: "derive_name i (documentBase @ CHR ''/'' # [a, b, CHR ''.'', CHR ''p'', CHR ''d'', CHR ''f''])
             = [a, b, CHR ''.'', CHR ''p'', CHR ''d'', CHR ''f'']"
    if "a \<noteq> CHR ''/''" "b \<noteq> CHR ''/''" for i a b
    using that derive_name_segment [of "[a, b, CHR ''.'', CHR ''p'', CHR ''d'', CHR ''f'']" i documentBase]
    by simp
  show ?thesis
    by (simp add: twelve_urls_def twelve_links_def seg)
qed

lemma first_run_of_twelve:
  "uploadedCount (Ingest good_remote [] twelve_urls) = 12 \<and>
   skippedCount (Ingest good_remote [] twelve_urls) = 0 \<and>
   map doc_DisplayName (store_docs (Ingest good_remote [] twelve_urls)) =
     candidate_names 0 twelve_urls"
proof -
  have e: "existing_documents good_remote [] = []"
    by (simp add: existing_documents_def ListDocuments_def)
  have l: "length (candidate_names 0 twelve_urls) = 12" by (simp add: twelve_names)
  from Ingest_success [OF good_remote_download good_remote_upload, of "[]" twelve_urls] l
  show ?thesis by (simp add: e)
qed

text \<open>
  C2 (a second run against an unchanged candidate list and store uploads nothing and
  skips all N candidates): the listing step reads only the first page of the store's
  documents. With twelve candidates, a page of ten documents and every fetch and
  upload succeeding, the first run uploads all twelve; the second run finds ten of the
  twelve names in its listing, skips these ten and uploads the other two again.
\<close>

theorem second_run_uploads_past_first_page:
  "uploadedCount (Ingest good_remote [] twelve_urls) = 12 \<and>
   skippedCount (Ingest good_remote [] twelve_urls) = 0 \<and>
   uploadedCount (Ingest good_remote (store_docs (Ingest good_remote [] twelve_urls)) twelve_urls) = 2 \<and>
   skippedCount (Ingest good_remote (store_docs (Ingest good_remote [] twelve_urls)) twelve_urls) = 10"
proof -
  let ?store = "store_docs (Ingest good_remote [] twelve_urls)"
  note first = first_run_of_twelve
  have ex: "existing_documents good_remote ?store = take 10 ?store"
    by (simp add: existing_documents_def ListDocuments_def good_remote_def)
  have "doc_DisplayName ` set (take 10 ?store) = set (take 10 (map doc_DisplayName ?store))"
    by (simp only: take_map set_map)
  also have "\<dots> = set (take 10 (candidate_names 0 twelve_urls))"
    using first by simp
  finally have listed: "doc_DisplayName ` set (existing_documents good_remote ?store) =
      {''01.pdf'', ''02.pdf'', ''03.pdf'', ''04.pdf'', ''05.pdf'', ''06.pdf'',
       ''07.pdf'', ''08.pdf'', ''09.pdf'', ''10.pdf''}"
    by (simp add: ex twelve_names)
  note second = Ingest_success [OF good_remote_download good_remote_upload, of ?store twelve_urls]
  from second have u: "uploadedCount (Ingest good_remote ?store twelve_urls) = 2"
    by (simp add: listed twelve_names)
  from second have k: "skippedCount (Ingest good_remote ?store twelve_urls) = 10"
    by (simp add: listed twelve_names)
  from first u k show ?thesis by simp
qed

text \<open>
  C4 (a candidate whose derived name is empty, such as one whose source URL ends in a
  slash, is named \<open>document_<i>.pdf\<close> after its 1-based position): \<open>filepath.Base\<close>
  strips trailing slashes and never returns the empty name that the guard of main.go,
  line 81, tests for. The second candidate of a batch is named \<open>docs\<close> when its
  document link is \<open>/docs/\<close>, and \<open>x\<close> when its URL is \<open>https://x/\<close>; in neither
  case \<open>document_2.pdf\<close>.
\<close>

theorem trailing_slash_gets_no_fallback:
  "document_urls [''/a.pdf'', ''/docs/''] = [documentBase @ ''/a.pdf'', documentBase @ ''/docs/''] \<and>
   candidate_names 0 (document_urls [''/a.pdf'', ''/docs/'']) = [''a.pdf'', ''docs''] \<and>
   candidate_names 0 [''https://x/a.pdf'', ''https://x/''] = [''a.pdf'', ''x'']"
proof -
  have u: "document_urls [''/a.pdf'', ''/docs/''] = [documentBase @ ''/a.pdf'', documentBase @ ''/docs/'']"
    by simp
  have a: "derive_name 0 (documentBase @ ''/a.pdf'') = ''a.pdf''"
    using derive_name_segment [of "''a.pdf''" 0 documentBase] by simp
  have "derive_name (Suc 0) ((documentBase @ ''/docs'') @ ''/'') = derive_name (Suc 0) (documentBase @ ''/docs'')"
    by (rule derive_name_trailing_slash) simp
  moreover have "derive_name (Suc 0) (documentBase @ ''/docs'') = ''docs''"
    using derive_name_segment [of "''docs''" "Suc 0" documentBase] by simp
  ultimately have d: "derive_name (Suc 0) (documentBase @ ''/docs/'') = ''docs''" by simp
  have x: "candidate_names 0 [''https://x/a.pdf'', ''https://x/''] = [''a.pdf'', ''x'']"
    by (simp add: derive_name_def filepath_Base_def strip_trailing_slashes_def last_element_def Let_def)
  from u a d x show ?thesis by simp
qed

lemma fullPrompt_typed: "fullPrompt prompt (HistMessages h) = prompt"
  by (simp add: fullPrompt_def)

lemma history_loop_turns:
  "history_loop (map untyped_turn ts) ctx = ctx @ concat (map turn_line ts)"
  by (induction ts arbitrary: ctx) (simp_all add: untyped_turn_def turn_line_def map_index_def)

lemma fullPrompt_untyped_turns:
  "ts \<noteq> [] \<Longrightarrow>
   fullPrompt prompt (HistUntyped (map untyped_turn ts)) =
     ''Previous conversation:'' @ [newline] @ concat (map turn_line ts) @ [newline] @
     ''Current question: '' @ prompt"
  by (simp add: fullPrompt_def history_loop_turns)

lemma Query_outbound_prompt:
  "Query_outbound listed req = Inr (p, n) \<Longrightarrow> p = req_Query req"
  by (auto simp: Query_outbound_def fullPrompt_typed split: if_splits sum.splits)

text \<open>
  C1 (a non-empty history is rendered into the prompt, one line per turn): \<open>Query\<close>
  passes the history as a \<open>[]HistoryMessage\<close>, the type assertion to \<open>[]interface{}\<close>
  in \<open>PromptWithHistory\<close> fails on it, and the prompt sent is the question alone. For
  the history of two turns and the question \<open>Q2\<close> the prompt is \<open>Q2\<close>, which contains
  neither \<open>user: Q1\<close> nor \<open>assistant: A1\<close>.
\<close>

theorem Query_drops_history:
  "Query_outbound example_stores history_request = Inr (''Q2'', ''fileSearchStores/cao'') \<and>
   \<not> sublist ''user: Q1'' ''Q2'' \<and> \<not> sublist ''assistant: A1'' ''Q2''"
proof -
  have a: "Query_outbound example_stores history_request = Inr (''Q2'', ''fileSearchStores/cao'')"
    by (simp add: Query_outbound_def example_stores_def history_request_def GetStoreByName_def
        fullPrompt_def)
  have b: "\<not> sublist ''user: Q1'' ''Q2''"
    using sublist_length_le [of "''user: Q1''" "''Q2''"] by auto
  have c: "\<not> sublist ''assistant: A1'' ''Q2''"
    using sublist_length_le [of "''assistant: A1''" "''Q2''"] by auto
  from a b c show ?thesis by blast
qed

end
